theory Spec2Isabelle
  imports Complex_Main "HOL-Library.Word"
begin

section \<open>JavaScript strings\<close>

text \<open>
  A JavaScript string is a sequence of 16-bit code units. \<open>js\<close> embeds an ASCII
  literal of the source text.
\<close>

type_synonym code_unit = "16 word"
type_synonym jsstring = "code_unit list"

definition js :: "string \<Rightarrow> jsstring" where
  "js s = map (\<lambda>c. of_nat (of_char c)) s"

text \<open>
  \<open>String.prototype.trim\<close> removes the code units of WhiteSpace and LineTerminator
  from both ends: TAB, LF, VT, FF, CR, SP, NBSP, U+1680, U+2000 .. U+200A, LS, PS,
  U+202F, U+205F, U+3000 and ZWNBSP.
\<close>

definition is_space :: "code_unit \<Rightarrow> bool" where
  "is_space c \<longleftrightarrow>
     (9 \<le> c \<and> c \<le> 13) \<or> c = 32 \<or> c = 160 \<or> c = 5760 \<or> (8192 \<le> c \<and> c \<le> 8202) \<or>
     c = 8232 \<or> c = 8233 \<or> c = 8239 \<or> c = 8287 \<or> c = 12288 \<or> c = 65279"

definition trim :: "jsstring \<Rightarrow> jsstring" where
  "trim s = rev (dropWhile is_space (rev (dropWhile is_space s)))"

text \<open>\<open>s.slice(0, n)\<close> for \<open>n \<ge> 0\<close>: the first \<open>n\<close> code units.\<close>

definition slice0 :: "jsstring \<Rightarrow> nat \<Rightarrow> jsstring" where
  "slice0 s n = take n s"

text \<open>
  \<open>s.padStart(n, fill)\<close>: \<open>s\<close> itself when it is long enough or \<open>fill\<close> is empty,
  otherwise \<open>fill\<close> repeated and cut to the missing length, then \<open>s\<close>.
\<close>

definition padStart :: "jsstring \<Rightarrow> nat \<Rightarrow> jsstring \<Rightarrow> jsstring" where
  "padStart s n fill =
     (if n \<le> length s \<or> fill = [] then s
      else take (n - length s) (concat (replicate (n - length s) fill)) @ s)"

text \<open>\<open>s.replace(/"/g, '\\"')\<close>: a backslash before every double quote.\<close>

definition dquote :: code_unit where
  "dquote = 34"

definition backslash :: code_unit where
  "backslash = 92"

definition escape_quotes :: "jsstring \<Rightarrow> jsstring" where
  "escape_quotes s = concat (map (\<lambda>c. if c = dquote then [backslash, dquote] else [c]) s)"

text \<open>
  \<open>/pat/i.test(s)\<close> for a pattern of literal characters. Without the \<open>u\<close> flag the
  engine compares the canonical form of each code unit, its upper case unless that
  would take a code unit from 128 upwards to one below 128. For a pattern of ASCII
  characters this is equality after folding the ASCII letters, which is what \<open>canon\<close>
  computes.
\<close>

definition canon :: "code_unit \<Rightarrow> code_unit" where
  "canon c = (if 97 \<le> c \<and> c \<le> 122 then c - 32 else c)"

fun matches_at :: "jsstring \<Rightarrow> jsstring \<Rightarrow> bool" where
  "matches_at [] s = True"
| "matches_at (p # ps) [] = False"
| "matches_at (p # ps) (c # cs) = (canon p = canon c \<and> matches_at ps cs)"

fun regex_test_i :: "jsstring \<Rightarrow> jsstring \<Rightarrow> bool" where
  "regex_test_i pat [] = matches_at pat []"
| "regex_test_i pat (c # cs) = (matches_at pat (c # cs) \<or> regex_test_i pat cs)"

text \<open>
  The same property in the words of the specification: some substring of the text equals
  the pattern up to the case of ASCII letters.
\<close>

definition contains_ci :: "jsstring \<Rightarrow> jsstring \<Rightarrow> bool" where
  "contains_ci s pat \<longleftrightarrow> (\<exists>pre mid post. s = pre @ mid @ post \<and> map canon mid = map canon pat)"

text \<open>Number-to-string conversion for integral values: decimal, a sign when negative.\<close>

definition digit :: "nat \<Rightarrow> code_unit" where
  "digit d = of_nat (48 + d)"

fun dec_nat :: "nat \<Rightarrow> jsstring" where
  "dec_nat n = (if n < 10 then [digit n] else dec_nat (n div 10) @ [digit (n mod 10)])"

declare dec_nat.simps [simp del]

definition number_toString :: "int \<Rightarrow> jsstring" where
  "number_toString i = (if i < 0 then js ''-'' @ dec_nat (nat (- i)) else dec_nat (nat i))"

section \<open>JavaScript values\<close>

text \<open>
  The values that reach the \<open>catch\<close> clauses of the plugin, typed \<open>any\<close> there:
  primitives, plain objects (a list of own properties) and \<open>Error\<close> objects (name,
  message, further own properties such as \<open>code\<close>). Numbers held in such values are
  exit codes, hence integral.
\<close>

datatype jsval =
    Undefined
  | Null
  | Str jsstring
  | Num int
  | PlainObj "(string \<times> jsval) list"
  | ErrorObj jsstring jsstring "(string \<times> jsval) list"

definition truthy :: "jsval \<Rightarrow> bool" where
  "truthy v = (case v of Undefined \<Rightarrow> False | Null \<Rightarrow> False | Str s \<Rightarrow> s \<noteq> []
               | Num n \<Rightarrow> n \<noteq> 0 | PlainObj _ \<Rightarrow> True | ErrorObj _ _ _ \<Rightarrow> True)"

text \<open>
  \<open>e?.k\<close> for the property names the plugin reads (\<open>stdout\<close>, \<open>stderr\<close>,
  \<open>message\<close>, \<open>code\<close>), none of which is inherited from \<open>Object.prototype\<close>,
  \<open>String.prototype\<close> or \<open>Number.prototype\<close>.
\<close>

definition get_prop :: "jsval \<Rightarrow> string \<Rightarrow> jsval" where
  "get_prop v k =
     (case v of
        PlainObj ps \<Rightarrow> (case map_of ps k of Some x \<Rightarrow> x | None \<Rightarrow> Undefined)
      | ErrorObj name message ps \<Rightarrow>
          (if k = ''message'' then Str message
           else if k = ''name'' then Str name
           else (case map_of ps k of Some x \<Rightarrow> x | None \<Rightarrow> Undefined))
      | _ \<Rightarrow> Undefined)"

text \<open>\<open>String(v)\<close>\<close>

definition js_String :: "jsval \<Rightarrow> jsstring" where
  "js_String v =
     (case v of
        Undefined \<Rightarrow> js ''undefined''
      | Null \<Rightarrow> js ''null''
      | Str s \<Rightarrow> s
      | Num n \<Rightarrow> number_toString n
      | PlainObj _ \<Rightarrow> js ''[object Object]''
      | ErrorObj name message _ \<Rightarrow>
          (if name = [] then message
           else if message = [] then name
           else name @ js '': '' @ message))"

text \<open>\<open>(v ?? '').toString()\<close>\<close>

definition coalesce_toString :: "jsval \<Rightarrow> jsstring" where
  "coalesce_toString v = (case v of Undefined \<Rightarrow> [] | Null \<Rightarrow> [] | _ \<Rightarrow> js_String v)"

text \<open>\<open>a || b\<close>\<close>

definition js_or :: "jsval \<Rightarrow> jsval \<Rightarrow> jsval" where
  "js_or a b = (if truthy a then a else b)"

text \<open>
  The \<open>TypeError\<close> raised by calling \<open>.trim()\<close> on a value that has no such method.
\<close>

definition type_error :: jsval where
  "type_error = ErrorObj (js ''TypeError'') (js ''trim is not a function'') []"

text \<open>
  The diagnostic text, computed alike in both \<open>catch\<close> clauses:
  \<^verbatim>\<open>
  const stdout = (e?.stdout ?? '').toString();
  const stderr = (e?.stderr ?? '').toString();
  const msg = (stderr || stdout || e?.message || String(e)).trim();
  \<close>
  \<open>Inl\<close> is the exception of \<open>.trim()\<close> on a value that is not a string.
\<close>

definition diagnostic :: "jsval \<Rightarrow> jsval + jsstring" where
  "diagnostic e =
     (let stdout = coalesce_toString (get_prop e ''stdout'');
          stderr = coalesce_toString (get_prop e ''stderr'')
      in case js_or (js_or (js_or (Str stderr) (Str stdout)) (get_prop e ''message''))
                (Str (js_String e)) of
           Str m \<Rightarrow> Inr (trim m)
         | _ \<Rightarrow> Inl type_error)"

section \<open>JavaScript numbers\<close>

text \<open>
  A Number is NaN, an infinity or a finite binary64 value, held as the real it denotes.
  The sign of zero is not kept: no operation of the plugin observes it.
\<close>

datatype jsnum = NaN | PInf | NInf | Fin real

definition js_isFinite :: "jsnum \<Rightarrow> bool" where
  "js_isFinite x = (case x of Fin _ \<Rightarrow> True | _ \<Rightarrow> False)"

text \<open>\<open>a <= b\<close> and \<open>a >= b\<close>: false when an operand is NaN.\<close>

fun js_le :: "jsnum \<Rightarrow> jsnum \<Rightarrow> bool" where
  "js_le NaN _ = False"
| "js_le _ NaN = False"
| "js_le NInf _ = True"
| "js_le _ PInf = True"
| "js_le (Fin a) (Fin b) = (a \<le> b)"
| "js_le _ _ = False"


text \<open>
  Rounding a real to binary64, to nearest and ties to even: 53 significant bits, the
  exponent of the last place no lower than \<open>-1074\<close>, overflow to an infinity.
\<close>

definition round_even :: "real \<Rightarrow> int" where
  "round_even y =
     (let f = \<lfloor>y\<rfloor>; r = y - of_int f
      in if r < 1 / 2 then f
         else if 1 / 2 < r then f + 1
         else if even f then f else f + 1)"

definition fl :: "real \<Rightarrow> jsnum" where
  "fl x =
     (if x = 0 then Fin 0
      else let e = max (\<lfloor>log 2 \<bar>x\<bar>\<rfloor> - 52) (- 1074);
               y = of_int (round_even (x / 2 powi e)) * 2 powi e
           in if 2 ^ 1024 \<le> \<bar>y\<bar> then (if 0 < x then PInf else NInf)
              else Fin y)"

definition sign_of :: "jsnum \<Rightarrow> int" where
  "sign_of x =
     (case x of NaN \<Rightarrow> 0 | PInf \<Rightarrow> 1 | NInf \<Rightarrow> - 1
      | Fin a \<Rightarrow> (if 0 < a then 1 else if a < 0 then - 1 else 0))"

text \<open>\<open>a * b\<close>\<close>

definition js_mul :: "jsnum \<Rightarrow> jsnum \<Rightarrow> jsnum" where
  "js_mul x y =
     (if x = NaN \<or> y = NaN then NaN
      else case (x, y) of
             (Fin a, Fin b) \<Rightarrow> fl (a * b)
           | _ \<Rightarrow> (let s = sign_of x * sign_of y
                   in if s = 0 then NaN else if 0 < s then PInf else NInf))"

text \<open>\<open>Math.round\<close>: the nearest integer, a tie going up.\<close>

definition Math_round :: "jsnum \<Rightarrow> jsnum" where
  "Math_round x = (case x of Fin a \<Rightarrow> Fin (of_int \<lfloor>a + 1 / 2\<rfloor>) | _ \<Rightarrow> x)"

text \<open>\<open>Math.max\<close> of two arguments: NaN when either is.\<close>

definition Math_max :: "jsnum \<Rightarrow> jsnum \<Rightarrow> jsnum" where
  "Math_max a b = (if a = NaN \<or> b = NaN then NaN else if js_le a b then b else a)"

section \<open>The plugin\<close>

subsection \<open>State and environment\<close>

text \<open>
  The fields of \<open>GitOnlyAutoCommitPlugin\<close> (\<open>settings.intervalMinutes\<close>,
  \<open>isRunning\<close>, \<open>autoIntervalHandle\<close>) and what the plugin does to its host: the
  notices shown, the values passed to \<open>console.error\<close>, the subprocesses started
  (command and working directory), the repeating timers of the window (handle and
  period in milliseconds), the handles given to \<open>registerInterval\<close> and the data
  handed to \<open>saveData\<close>. \<open>world\<close> is whatever the subprocesses act on.
\<close>

record 'w plugin =
  intervalMinutes :: jsnum
  isRunning :: bool
  autoIntervalHandle :: "nat option"
  world :: 'w
  notices :: "jsstring list"
  console_errors :: "jsval list"
  exec_calls :: "(jsstring \<times> jsstring) list"
  timers :: "(nat \<times> jsnum) list"
  next_handle :: nat
  registered :: "nat list"
  saveData_calls :: "jsnum list"

text \<open>What \<open>new Date()\<close> offers to \<open>buildCommitMessage\<close>.\<close>

record date =
  getMonth :: int
  getDate :: int
  getFullYear :: int
  getHours :: int
  getMinutes :: int

datatype adapter = FileSystemAdapter jsstring | OtherAdapter

text \<open>
  The host: \<open>exec\<close> of \<open>child_process\<close> gives the arguments of its callback
  (\<open>error\<close>, \<open>stdout\<close>, \<open>stderr\<close>) and the world the subprocess leaves, or \<open>None\<close>
  when the callback is never called; \<open>clock\<close> is the local time; \<open>adapter\<close> is
  \<open>app.vault.adapter\<close>.
\<close>

record 'w env =
  exec :: "'w \<Rightarrow> jsstring \<Rightarrow> jsstring \<Rightarrow> (jsval \<times> jsstring \<times> jsstring \<times> 'w) option"
  clock :: "'w \<Rightarrow> date"
  adapter :: adapter

text \<open>
  The state of a promise when the event loop has nothing more to run: fulfilled,
  rejected, or pending for ever.
\<close>

datatype 'a outcome = Fulfilled 'a | Rejected jsval | Pending

text \<open>\<open>await p\<close> followed by the rest of the function body.\<close>

definition await :: "'a outcome \<times> 's \<Rightarrow> ('a \<Rightarrow> 's \<Rightarrow> 'b outcome \<times> 's) \<Rightarrow> 'b outcome \<times> 's" where
  "await r k =
     (case r of
        (Fulfilled x, s) \<Rightarrow> k x s
      | (Rejected e, s) \<Rightarrow> (Rejected e, s)
      | (Pending, s) \<Rightarrow> (Pending, s))"

definition Notice :: "jsstring \<Rightarrow> 'w plugin \<Rightarrow> 'w plugin" where
  "Notice text s = s\<lparr>notices := notices s @ [text]\<rparr>"

definition console_error :: "jsval \<Rightarrow> 'w plugin \<Rightarrow> 'w plugin" where
  "console_error e s = s\<lparr>console_errors := console_errors s @ [e]\<rparr>"

subsection \<open>buildCommitMessage, run, getVaultPath\<close>

definition buildCommitMessage :: "date \<Rightarrow> jsstring" where
  "buildCommitMessage d =
     (let MM = getMonth d + 1;
          DD = getDate d;
          YYYY = getFullYear d;
          hh = getHours d;
          mm = padStart (number_toString (getMinutes d)) 2 (js ''0'')
      in js ''auto commit at '' @ number_toString MM @ js ''-'' @ number_toString DD @ js ''-'' @
         number_toString YYYY @ js '' '' @ number_toString hh @ js '':'' @ mm)"

definition rejection :: "jsval \<Rightarrow> jsstring \<Rightarrow> jsstring \<Rightarrow> jsval" where
  "rejection error stdout stderr =
     PlainObj [(''error'', error), (''stdout'', Str stdout), (''stderr'', Str stderr)]"

definition run :: "'w env \<Rightarrow> jsstring \<Rightarrow> jsstring \<Rightarrow> 'w plugin \<Rightarrow> (jsstring \<times> jsstring) outcome \<times> 'w plugin" where
  "run env command cwd s =
     (let s' = s\<lparr>exec_calls := exec_calls s @ [(command, cwd)]\<rparr>
      in case exec env (world s) command cwd of
           None \<Rightarrow> (Pending, s')
         | Some (error, stdout, stderr, w) \<Rightarrow>
             (if truthy error then (Rejected (rejection error stdout stderr), s'\<lparr>world := w\<rparr>)
              else (Fulfilled (stdout, stderr), s'\<lparr>world := w\<rparr>)))"

definition getVaultPath :: "'w env \<Rightarrow> jsstring option" where
  "getVaultPath env = (case adapter env of FileSystemAdapter basePath \<Rightarrow> Some basePath | OtherAdapter \<Rightarrow> None)"

subsection \<open>commitAndPush\<close>

definition verify_command :: jsstring where
  "verify_command = js ''git rev-parse --is-inside-work-tree''"

definition stage_command :: jsstring where
  "stage_command = js ''git add -A''"

definition commit_command :: "jsstring \<Rightarrow> jsstring" where
  "commit_command msg = js ''git commit -m '' @ [dquote] @ escape_quotes msg @ [dquote]"

definition push_command :: jsstring where
  "push_command = js ''git push''"

text \<open>The inner \<open>try\<close> around the commit, with its \<open>catch\<close>.\<close>

definition commit_step :: "'w env \<Rightarrow> jsstring \<Rightarrow> jsstring \<Rightarrow> 'w plugin \<Rightarrow> unit outcome \<times> 'w plugin" where
  "commit_step env msg cwd s =
     (case run env (commit_command msg) cwd s of
        (Fulfilled _, s') \<Rightarrow> (Fulfilled (), s')
      | (Pending, s') \<Rightarrow> (Pending, s')
      | (Rejected e, s') \<Rightarrow>
          (case diagnostic e of
             Inl t \<Rightarrow> (Rejected t, s')
           | Inr m \<Rightarrow>
               (if \<not> regex_test_i (js ''nothing to commit'') m then (Rejected e, s')
                else (Fulfilled (), s'))))"

text \<open>The body of the outer \<open>try\<close>.\<close>

definition try_body :: "'w env \<Rightarrow> 'w plugin \<Rightarrow> unit outcome \<times> 'w plugin" where
  "try_body env s =
     (case getVaultPath env of
        None \<Rightarrow> (Fulfilled (), Notice (js ''Available on desktop only'') s)
      | Some cwd \<Rightarrow>
          (if cwd = [] then (Fulfilled (), Notice (js ''Available on desktop only'') s)
           else
             await (run env verify_command cwd s) (\<lambda>_ s1.
               let msg = buildCommitMessage (clock env (world s1))
               in await (run env stage_command cwd s1) (\<lambda>_ s2.
                    await (commit_step env msg cwd s2) (\<lambda>_ s3.
                      await (run env push_command cwd s3) (\<lambda>_ s4. (Fulfilled (), s4)))))))"

text \<open>
  The outer \<open>catch\<close>. (\<open>code\<close> is computed there and not used.)
\<close>

definition catch_handler :: "jsval \<Rightarrow> 'w plugin \<Rightarrow> unit outcome \<times> 'w plugin" where
  "catch_handler e s =
     (case diagnostic e of
        Inl t \<Rightarrow> (Rejected t, s)
      | Inr msg \<Rightarrow>
          (Fulfilled (),
           console_error e (Notice (js ''only commit: Error'' @ [10] @ slice0 msg 400) s)))"

text \<open>
  The whole routine. \<open>finally\<close> runs when the \<open>try\<close> and \<open>catch\<close> blocks are left,
  which a pending \<open>await\<close> never does.
\<close>

definition commitAndPush :: "'w env \<Rightarrow> 'w plugin \<Rightarrow> unit outcome \<times> 'w plugin" where
  "commitAndPush env s =
     (if isRunning s then (Fulfilled (), Notice (js ''only commit: already running'') s)
      else
        (case (case try_body env (s\<lparr>isRunning := True\<rparr>) of
                 (Rejected e, s1) \<Rightarrow> catch_handler e s1
               | r \<Rightarrow> r) of
           (Pending, s2) \<Rightarrow> (Pending, s2)
         | (r, s2) \<Rightarrow> (r, s2\<lparr>isRunning := False\<rparr>)))"

subsection \<open>reschedule and the settings tab\<close>

definition clearInterval :: "nat \<Rightarrow> 'w plugin \<Rightarrow> 'w plugin" where
  "clearInterval h s = s\<lparr>timers := filter (\<lambda>t. fst t \<noteq> h) (timers s)\<rparr>"

definition setInterval :: "jsnum \<Rightarrow> 'w plugin \<Rightarrow> nat \<times> 'w plugin" where
  "setInterval ms s =
     (next_handle s, s\<lparr>timers := timers s @ [(next_handle s, ms)], next_handle := Suc (next_handle s)\<rparr>)"

definition registerInterval :: "nat \<Rightarrow> 'w plugin \<Rightarrow> 'w plugin" where
  "registerInterval h s = s\<lparr>registered := registered s @ [h]\<rparr>"

text \<open>
  \<open>Number(x)\<close> of a number is \<open>x\<close>, so \<open>minutes\<close> is the setting itself.
\<close>

definition reschedule :: "'w plugin \<Rightarrow> 'w plugin" where
  "reschedule s =
     (let s1 = (case autoIntervalHandle s of
                  Some h \<Rightarrow> (clearInterval h s)\<lparr>autoIntervalHandle := None\<rparr>
                | None \<Rightarrow> s);
          minutes = intervalMinutes s1
      in if \<not> js_isFinite minutes \<or> js_le minutes (Fin 0) then s1
         else
           (let ms = Math_max (Fin 10000) (Math_round (js_mul (js_mul minutes (Fin 60)) (Fin 1000)));
                (h, s2) = setInterval ms s1
            in registerInterval h (s2\<lparr>autoIntervalHandle := Some h\<rparr>)))"

text \<open>What each firing of the timer runs.\<close>

definition timer_callback :: "'w env \<Rightarrow> 'w plugin \<Rightarrow> unit outcome \<times> 'w plugin" where
  "timer_callback env s = (if \<not> isRunning s then commitAndPush env s else (Fulfilled (), s))"



section \<open>Notions of the specification and example hosts\<close>

text \<open>
  The specification's format of the commit message: a field is unpadded, or padded with
  a zero to two digits.
\<close>

definition two_digits :: "nat \<Rightarrow> jsstring" where
  "two_digits n = [digit (n div 10), digit (n mod 10)]"

definition unpadded :: "nat \<Rightarrow> jsstring" where
  "unpadded n = (if n < 10 then [digit n] else two_digits n)"

text \<open>
  The timers of the window are those of the plugin: none, or the one whose handle the
  plugin holds.
\<close>

definition timers_tracked :: "'w plugin \<Rightarrow> bool" where
  "timers_tracked s \<longleftrightarrow>
     map fst (timers s) = (case autoIntervalHandle s of None \<Rightarrow> [] | Some h \<Rightarrow> [h])"

text \<open>
  The plugin as constructed, with the default settings: \<open>intervalMinutes\<close> 5,
  \<open>isRunning\<close> false, \<open>autoIntervalHandle\<close> null.
\<close>

definition initial_plugin :: "'w \<Rightarrow> 'w plugin" where
  "initial_plugin w =
     \<lparr>intervalMinutes = Fin 5, isRunning = False, autoIntervalHandle = None, world = w,
      notices = [], console_errors = [], exec_calls = [], timers = [], next_handle = 1,
      registered = [], saveData_calls = []\<rparr>"

text \<open>
  A host whose subprocesses answer from a script, the world counting the subprocesses
  run so far; a subprocess beyond the script never calls back.
\<close>

definition scripted :: "(jsval \<times> jsstring \<times> jsstring) option list \<Rightarrow> date \<Rightarrow> nat env" where
  "scripted script d =
     \<lparr>exec = (\<lambda>w command cwd.
         if w < length script then map_option (\<lambda>(e, out, err). (e, out, err, Suc w)) (script ! w)
         else None),
      clock = (\<lambda>w. d),
      adapter = FileSystemAdapter (js ''/vault'')\<rparr>"

definition march_7 :: date where
  "march_7 = \<lparr>getMonth = 2, getDate = 7, getFullYear = 2024, getHours = 9, getMinutes = 5\<rparr>"

definition exit_error :: "int \<Rightarrow> jsval" where
  "exit_error n = ErrorObj (js ''Error'') (js ''Command failed'') [(''code'', Num n)]"

definition spawn_error :: jsval where
  "spawn_error = ErrorObj (js ''Error'') (js ''spawn /bin/sh ENOENT'') [(''code'', Str (js ''ENOENT''))]"

definition hook_script :: "(jsval \<times> jsstring \<times> jsstring) option list" where
  "hook_script =
     [Some (Null, js ''true'', []),
      Some (Null, [], []),
      Some (exit_error 1, js ''nothing to commit, working tree clean'', js ''checking notes'')]"


definition clean_tree_script :: "(jsval \<times> jsstring \<times> jsstring) option list" where
  "clean_tree_script =
     [Some (Null, js ''true'', []),
      Some (Null, [], []),
      Some (exit_error 1, js ''nothing to commit, working tree clean'', []),
      Some (Null, [], js ''Everything up-to-date'')]"

text \<open>The binary64 value that \<open>parseFloat\<close> gives for \<open>0.16675833333333331\<close>.\<close>

definition odd_interval :: real where
  "odd_interval = 6008102142887399 / 36028797018963968"

section \<open>Strings and diagnostics\<close>

lemma js_Nil: "js [] = []" by (simp add: js_def)
lemma js_Cons: "js (c # cs) = of_nat (of_char c) # js cs" by (simp add: js_def)

lemma matches_at_iff:
  "matches_at pat s \<longleftrightarrow> (\<exists>mid post. s = mid @ post \<and> map canon mid = map canon pat)"
proof (induction pat s rule: matches_at.induct)
  case (1 s)
  then show ?case by simp
next
  case (2 p ps)
  then show ?case by simp
next
  case (3 p ps c cs)
  show ?case
  proof
    assume "matches_at (p # ps) (c # cs)"
    then obtain mid post where "canon p = canon c" "cs = mid @ post" "map canon mid = map canon ps"
      using 3 by auto
    then have "c # cs = (c # mid) @ post \<and> map canon (c # mid) = map canon (p # ps)"
      by simp
    then show "\<exists>mid post. c # cs = mid @ post \<and> map canon mid = map canon (p # ps)"
      by blast
  next
    assume "\<exists>mid post. c # cs = mid @ post \<and> map canon mid = map canon (p # ps)"
    then obtain mid post where m: "c # cs = mid @ post" "map canon mid = map canon (p # ps)"
      by blast
    then obtain m ms where "mid = m # ms"
      by (cases mid) auto
    with m have "canon p = canon c" "cs = ms @ post" "map canon ms = map canon ps"
      by auto
    then show "matches_at (p # ps) (c # cs)"
      using 3 by auto
  qed
qed

lemma regex_test_i_iff: "regex_test_i pat s \<longleftrightarrow> (\<exists>pre rest. s = pre @ rest \<and> matches_at pat rest)"
proof (induction s)
  case Nil
  then show ?case by simp
next
  case (Cons c cs)
  show ?case
  proof
    assume "regex_test_i pat (c # cs)"
    then consider "matches_at pat (c # cs)" | "regex_test_i pat cs"
      by auto
    then show "\<exists>pre rest. c # cs = pre @ rest \<and> matches_at pat rest"
    proof cases
      case 1
      then have "c # cs = [] @ (c # cs) \<and> matches_at pat (c # cs)" by simp
      then show ?thesis by blast
    next
      case 2
      then obtain pre rest where "cs = pre @ rest" "matches_at pat rest"
        using Cons by blast
      then have "c # cs = (c # pre) @ rest \<and> matches_at pat rest" by simp
      then show ?thesis by blast
    qed
  next
    assume "\<exists>pre rest. c # cs = pre @ rest \<and> matches_at pat rest"
    then obtain pre rest where pr: "c # cs = pre @ rest" "matches_at pat rest"
      by blast
    show "regex_test_i pat (c # cs)"
    proof (cases pre)
      case Nil
      with pr have "matches_at pat (c # cs)" by simp
      then show ?thesis by simp
    next
      case (Cons a as)
      with pr have "cs = as @ rest" by simp
      with pr(2) have "regex_test_i pat cs"
        using Cons.IH by blast
      then show ?thesis by simp
    qed
  qed
qed

lemma regex_test_i_contains: "regex_test_i pat s \<longleftrightarrow> contains_ci s pat"
  unfolding regex_test_i_iff matches_at_iff contains_ci_def by blast

lemma diagnostic_rejection:
  "diagnostic (rejection error out err) =
     Inr (trim (if err \<noteq> [] then err else if out \<noteq> [] then out else js ''[object Object]''))"
  by (simp add: diagnostic_def rejection_def get_prop_def coalesce_toString_def js_String_def
      js_or_def truthy_def)

lemma run_None:
  "exec env (world s) command cwd = None \<Longrightarrow>
   run env command cwd s = (Pending, s\<lparr>exec_calls := exec_calls s @ [(command, cwd)]\<rparr>)"
  by (simp add: run_def)

lemma run_fail:
  "exec env (world s) command cwd = Some (error, out, err, w) \<Longrightarrow> truthy error \<Longrightarrow>
   run env command cwd s =
     (Rejected (rejection error out err), s\<lparr>exec_calls := exec_calls s @ [(command, cwd)], world := w\<rparr>)"
  by (simp add: run_def)

lemma run_ok:
  "exec env (world s) command cwd = Some (error, out, err, w) \<Longrightarrow> \<not> truthy error \<Longrightarrow>
   run env command cwd s =
     (Fulfilled (out, err), s\<lparr>exec_calls := exec_calls s @ [(command, cwd)], world := w\<rparr>)"
  by (simp add: run_def)

lemma trim_object_string: "trim (js ''[object Object]'') = js ''[object Object]''"
  by (simp add: trim_def is_space_def js_Nil js_Cons)

lemma take_object_string: "take 400 (js ''[object Object]'') = js ''[object Object]''"
  by (simp add: js_def)


section \<open>Paths through the commit routine\<close>

lemma verify_fails_effects:
  assumes "\<not> isRunning s" and "getVaultPath env = Some cwd" and "cwd \<noteq> []"
    and "exec env (world s) verify_command cwd = Some (error, out, err, w)" and "truthy error"
  shows "fst (commitAndPush env s) = Fulfilled () \<and>
         exec_calls (snd (commitAndPush env s)) = exec_calls s @ [(verify_command, cwd)] \<and>
         notices (snd (commitAndPush env s)) = notices s @ [js ''only commit: Error'' @ [10] @
            take 400 (trim (if err \<noteq> [] then err else if out \<noteq> [] then out else js ''[object Object]''))] \<and>
         console_errors (snd (commitAndPush env s)) = console_errors s @ [rejection error out err]"
proof -
  have "run env verify_command cwd (s\<lparr>isRunning := True\<rparr>) =
     (Rejected (rejection error out err), s\<lparr>isRunning := True, exec_calls := exec_calls s @ [(verify_command, cwd)], world := w\<rparr>)"
    using run_fail [of env "s\<lparr>isRunning := True\<rparr>" verify_command cwd error out err w] assms(4,5)
    by simp
  then show ?thesis
    using assms(1-3)
    by (simp add: commitAndPush_def try_body_def await_def catch_handler_def diagnostic_rejection
        Notice_def console_error_def slice0_def)
qed


lemma run_Rejected:
  "run env command cwd s = (Rejected v, s') \<Longrightarrow> \<exists>e out err. v = rejection e out err"
  by (auto simp: run_def Let_def split: option.splits if_splits) blast+

lemma commit_step_Rejected:
  assumes "commit_step env msg cwd s = (Rejected v, s')"
  shows "\<exists>e out err. v = rejection e out err"
proof (cases "run env (commit_command msg) cwd s")
  case (Pair r s1)
  show ?thesis
  proof (cases r)
    case (Rejected e)
    with Pair obtain x out err where e: "e = rejection x out err"
      using run_Rejected by blast
    with assms Pair Rejected show ?thesis
      by (auto simp: commit_step_def diagnostic_rejection split: if_splits)
  qed (use assms Pair in \<open>auto simp: commit_step_def\<close>)
qed

lemma try_body_Rejected:
  assumes "try_body env s = (Rejected v, s')"
  shows "\<exists>e out err. v = rejection e out err"
  using assms
  by (auto simp: try_body_def await_def Let_def
      split: option.splits if_splits prod.splits outcome.splits
      dest: run_Rejected commit_step_Rejected)

lemma catch_handler_rejection:
  "catch_handler (rejection e out err) s =
     (Fulfilled (),
      s\<lparr>notices := notices s @ [js ''only commit: Error'' @ [10] @
            take 400 (trim (if err \<noteq> [] then err else if out \<noteq> [] then out else js ''[object Object]''))],
        console_errors := console_errors s @ [rejection e out err]\<rparr>)"
  by (simp add: catch_handler_def diagnostic_rejection Notice_def console_error_def slice0_def)

lemma commitAndPush_not_Rejected: "fst (commitAndPush env s) \<noteq> Rejected v"
proof (cases "isRunning s")
  case True
  then show ?thesis by (simp add: commitAndPush_def)
next
  case False
  obtain r s1 where t: "try_body env (s\<lparr>isRunning := True\<rparr>) = (r, s1)"
    by (cases "try_body env (s\<lparr>isRunning := True\<rparr>)")
  show ?thesis
  proof (cases r)
    case (Rejected e)
    with t obtain x out err where "e = rejection x out err"
      using try_body_Rejected by blast
    with t Rejected False show ?thesis
      by (simp add: commitAndPush_def catch_handler_rejection)
  qed (use t False in \<open>simp_all add: commitAndPush_def\<close>)
qed

lemma run_not_Pending:
  "\<forall>w c d. exec env w c d \<noteq> None \<Longrightarrow> fst (run env command cwd s) \<noteq> Pending"
  by (auto simp: run_def Let_def split: option.splits)

lemma commit_step_not_Pending:
  "\<forall>w c d. exec env w c d \<noteq> None \<Longrightarrow> fst (commit_step env msg cwd s) \<noteq> Pending"
  using run_not_Pending [of env "commit_command msg" cwd s]
  by (auto simp: commit_step_def split: prod.splits outcome.splits sum.splits)

lemma await_not_Pending:
  "fst r \<noteq> Pending \<Longrightarrow> (\<And>x s. fst (k x s) \<noteq> Pending) \<Longrightarrow> fst (await r k) \<noteq> Pending"
  by (cases r) (auto simp: await_def split: outcome.splits)

lemma try_body_not_Pending:
  assumes "\<forall>w c d. exec env w c d \<noteq> None"
  shows "fst (try_body env s) \<noteq> Pending"
proof -
  have push: "fst (await (run env push_command cwd s3) (\<lambda>_ s4. (Fulfilled (), s4))) \<noteq> Pending"
    for cwd s3
    by (rule await_not_Pending) (simp_all add: run_not_Pending [OF assms])
  have commit: "fst (await (commit_step env msg cwd s2) (\<lambda>_ s3.
      await (run env push_command cwd s3) (\<lambda>_ s4. (Fulfilled (), s4)))) \<noteq> Pending"
    for msg cwd s2
    by (rule await_not_Pending) (simp_all add: commit_step_not_Pending [OF assms] push)
  have stage: "fst (await (run env stage_command cwd s1) (\<lambda>_ s2.
      await (commit_step env msg cwd s2) (\<lambda>_ s3.
        await (run env push_command cwd s3) (\<lambda>_ s4. (Fulfilled (), s4))))) \<noteq> Pending"
    for msg cwd s1
    by (rule await_not_Pending) (simp_all add: run_not_Pending [OF assms] commit)
  have verify: "fst (await (run env verify_command cwd s) (\<lambda>_ s1.
      let msg = buildCommitMessage (clock env (world s1))
      in await (run env stage_command cwd s1) (\<lambda>_ s2.
        await (commit_step env msg cwd s2) (\<lambda>_ s3.
          await (run env push_command cwd s3) (\<lambda>_ s4. (Fulfilled (), s4)))))) \<noteq> Pending"
    for cwd
    by (rule await_not_Pending) (simp_all add: run_not_Pending [OF assms] stage Let_def)
  show ?thesis
    using verify by (simp add: try_body_def Let_def split: option.splits)
qed

lemma commitAndPush_not_Pending:
  assumes "\<forall>w c d. exec env w c d \<noteq> None"
  shows "fst (commitAndPush env s) \<noteq> Pending"
proof (cases "isRunning s")
  case True
  then show ?thesis by (simp add: commitAndPush_def)
next
  case False
  obtain r s1 where t: "try_body env (s\<lparr>isRunning := True\<rparr>) = (r, s1)"
    by (cases "try_body env (s\<lparr>isRunning := True\<rparr>)")
  with try_body_not_Pending [OF assms, of "s\<lparr>isRunning := True\<rparr>"] have np: "r \<noteq> Pending"
    by simp
  show ?thesis
  proof (cases r)
    case (Rejected e)
    with t obtain x out err where "e = rejection x out err"
      using try_body_Rejected by blast
    with t Rejected False show ?thesis
      by (simp add: commitAndPush_def catch_handler_rejection)
  qed (use t False np in \<open>simp_all add: commitAndPush_def\<close>)
qed

lemma run_calls: "exec_calls (snd (run env command cwd s)) = exec_calls s @ [(command, cwd)]"
  by (simp add: run_def Let_def split: option.splits)

lemma try_body_staged:
  assumes "getVaultPath env = Some cwd" and "cwd \<noteq> []"
    and "exec env (world s) verify_command cwd = Some (e1, o1, r1, w1)" and "\<not> truthy e1"
    and "exec env w1 stage_command cwd = Some (e2, o2, r2, w2)" and "\<not> truthy e2"
  shows "try_body env s =
           await (commit_step env (buildCommitMessage (clock env w1)) cwd
                    (s\<lparr>exec_calls := exec_calls s @ [(verify_command, cwd), (stage_command, cwd)],
                       world := w2\<rparr>))
             (\<lambda>_ s3. await (run env push_command cwd s3) (\<lambda>_ s4. (Fulfilled (), s4)))"
proof -
  let ?s1 = "s\<lparr>exec_calls := exec_calls s @ [(verify_command, cwd)], world := w1\<rparr>"
  have v: "run env verify_command cwd s = (Fulfilled (o1, r1), ?s1)"
    using assms(3,4) by (rule run_ok)
  have "run env stage_command cwd ?s1 =
      (Fulfilled (o2, r2), ?s1\<lparr>exec_calls := exec_calls ?s1 @ [(stage_command, cwd)], world := w2\<rparr>)"
    using assms(5,6) by (intro run_ok) simp_all
  then have a: "run env stage_command cwd ?s1 =
      (Fulfilled (o2, r2),
       s\<lparr>exec_calls := exec_calls s @ [(verify_command, cwd), (stage_command, cwd)], world := w2\<rparr>)"
    by simp
  show ?thesis
    using assms(1,2) by (simp add: try_body_def v a await_def Let_def)
qed

lemma commit_step_fails:
  assumes "exec env (world s) (commit_command msg) cwd = Some (e3, o3, r3, w3)" and "truthy e3"
  shows "commit_step env msg cwd s =
           (if contains_ci (trim (if r3 \<noteq> [] then r3 else if o3 \<noteq> [] then o3 else js ''[object Object]''))
                 (js ''nothing to commit'')
            then Fulfilled () else Rejected (rejection e3 o3 r3),
            s\<lparr>exec_calls := exec_calls s @ [(commit_command msg, cwd)], world := w3\<rparr>)"
  using run_fail [OF assms]
  by (simp add: commit_step_def diagnostic_rejection regex_test_i_contains)

lemma exec_scripted:
  "w < length script \<Longrightarrow> script ! w = Some (e, out, err) \<Longrightarrow>
   exec (scripted script d) w command cwd = Some (e, out, err, Suc w)"
  by (simp add: scripted_def)

lemma buildCommitMessage_march_7: "buildCommitMessage march_7 = js ''auto commit at 3-7-2024 9:05''"
  by (simp add: buildCommitMessage_def march_7_def number_toString_def padStart_def dec_nat.simps
      digit_def js_Nil js_Cons)

section \<open>Arithmetic of the scheduler\<close>

lemma fl_normal:
  assumes "2 powi k \<le> \<bar>x\<bar>" and "\<bar>x\<bar> < 2 powi (k + 1)"
    and "- 1022 \<le> k" and "k \<le> 1022"
  shows "fl x = Fin (of_int (round_even (x / 2 powi (k - 52))) * 2 powi (k - 52))"
proof -
  have "(0::real) < 2 powi k"
    by (simp add: zero_less_power_int)
  then have pos: "0 < \<bar>x\<bar>"
    using assms(1) by linarith
  have p1: "(2::real) powr (of_int k) = 2 powi k"
    by (simp add: powr_real_of_int')
  have "(2::real) powr (of_int (k + 1)) = 2 powi (k + 1)"
    by (rule powr_real_of_int') simp_all
  then have p2: "(2::real) powr (of_int k + 1) = 2 powi (k + 1)"
    by simp
  have "\<lfloor>log 2 \<bar>x\<bar>\<rfloor> = k"
    using assms(1,2) pos by (simp add: floor_log_eq_powr_iff p1 p2)
  then have e: "max (\<lfloor>log 2 \<bar>x\<bar>\<rfloor> - 52) (- 1074) = k - 52"
    using assms(3) by simp
  define a where "a = x / 2 powi (k - 52)"
  define m where "m = round_even a"
  have pk: "(0::real) < 2 powi (k - 52)"
    by (simp add: zero_less_power_int)
  have "\<bar>a\<bar> = \<bar>x\<bar> / 2 powi (k - 52)"
    using pk by (simp add: a_def)
  also have "\<dots> < 2 powi (k + 1) / 2 powi (k - 52)"
    using assms(2) pk by (simp add: divide_strict_right_mono)
  also have "\<dots> = 2 powi 53"
    by (simp add: power_int_diff [symmetric])
  finally have a53: "\<bar>a\<bar> < 2 ^ 53"
    by simp
  have "\<lfloor>a\<rfloor> \<le> m" and "m \<le> \<lceil>a\<rceil>"
    by (simp_all add: m_def round_even_def Let_def) linarith+
  moreover have "- (2 ^ 53) \<le> \<lfloor>a\<rfloor>" and "\<lceil>a\<rceil> \<le> 2 ^ 53"
    using a53 by (simp_all add: le_floor_iff ceiling_le_iff)
  ultimately have "\<bar>m\<bar> \<le> 2 ^ 53"
    by linarith
  then have "\<bar>real_of_int m\<bar> \<le> 2 ^ 53"
    by (metis of_int_abs of_int_le_iff of_int_numeral of_int_power)
  then have "\<bar>real_of_int m * 2 powi (k - 52)\<bar> \<le> 2 ^ 53 * 2 powi (k - 52)"
    using pk by (simp add: abs_mult mult_right_mono)
  also have "\<dots> = 2 powi (k + 1)"
    using power_int_add [of "2::real" 53 "k - 52"] by (simp add: add.commute)
  also have "\<dots> \<le> (2::real) powi 1023"
    using assms(4) by (intro power_int_increasing) simp_all
  also have "\<dots> < (2::real) ^ 1024"
    by simp
  finally have small: "\<not> 2 ^ 1024 \<le> \<bar>of_int m * (2::real) powi (k - 52)\<bar>"
    by simp
  have "x \<noteq> 0"
    using pos by simp
  then show ?thesis
    using e small by (simp add: fl_def Let_def m_def a_def)
qed

lemma mul_60: "js_mul (Fin odd_interval) (Fin 60) = Fin (5632595758956937 / 562949953421312)"
proof -
  have a: "fl (odd_interval * 60) = Fin (of_int (round_even (odd_interval * 60 / 2 powi (3 - 52))) * 2 powi (3 - 52))"
    by (rule fl_normal) (simp_all add: odd_interval_def)
  have b: "odd_interval * 60 / 2 powi (3 - 52) = 90121532143310985 / 16"
    by (simp add: odd_interval_def)
  have c: "round_even (90121532143310985 / 16) = 5632595758956937"
    by (simp add: round_even_def)
  show ?thesis
    using a [unfolded b c] by (simp add: js_mul_def)
qed

lemma mul_1000: "js_mul (Fin (5632595758956937 / 562949953421312)) (Fin 1000) = Fin (20011 / 2)"
proof -
  let ?x = "5632595758956937 / 562949953421312 * 1000 :: real"
  have a: "fl ?x = Fin (of_int (round_even (?x / 2 powi (13 - 52))) * 2 powi (13 - 52))"
    by (rule fl_normal) simp_all
  have b: "?x / 2 powi (13 - 52) = 704074469869617125 / 128"
    by simp
  have c: "round_even (704074469869617125 / 128) = 5500581795856384"
    by (simp add: round_even_def)
  show ?thesis
    using a [unfolded b c] by (simp add: js_mul_def)
qed

lemma mul_60000: "js_mul (Fin odd_interval) (Fin 60000) = Fin (5500581795856383 / 549755813888)"
proof -
  have a: "fl (odd_interval * 60000) =
      Fin (of_int (round_even (odd_interval * 60000 / 2 powi (13 - 52))) * 2 powi (13 - 52))"
    by (rule fl_normal) (simp_all add: odd_interval_def)
  have b: "odd_interval * 60000 / 2 powi (13 - 52) = 11265191517913873125 / 2048"
    by (simp add: odd_interval_def)
  have c: "round_even (11265191517913873125 / 2048) = 5500581795856383"
    by (simp add: round_even_def)
  show ?thesis
    using a [unfolded b c] by (simp add: js_mul_def)
qed

lemma reschedule_effect:
  assumes "timers_tracked s"
  shows "reschedule s =
     (case intervalMinutes s of
        Fin x \<Rightarrow>
          if 0 < x then
            s\<lparr>autoIntervalHandle := Some (next_handle s),
              timers := [(next_handle s,
                 Math_max (Fin 10000) (Math_round (js_mul (js_mul (Fin x) (Fin 60)) (Fin 1000))))],
              next_handle := Suc (next_handle s),
              registered := registered s @ [next_handle s]\<rparr>
          else s\<lparr>autoIntervalHandle := None, timers := []\<rparr>
      | _ \<Rightarrow> s\<lparr>autoIntervalHandle := None, timers := []\<rparr>)"
proof -
  have c: "(case autoIntervalHandle s of
              Some h \<Rightarrow> (clearInterval h s)\<lparr>autoIntervalHandle := None\<rparr>
            | None \<Rightarrow> s) = s\<lparr>autoIntervalHandle := None, timers := []\<rparr>"
  proof (cases "autoIntervalHandle s")
    case None
    with assms show ?thesis
      by (simp add: timers_tracked_def)
  next
    case (Some h)
    with assms have "map fst (timers s) = [h]"
      by (simp add: timers_tracked_def)
    then have "filter (\<lambda>t. fst t \<noteq> h) (timers s) = []"
      by (cases "timers s") auto
    with Some show ?thesis
      by (simp add: clearInterval_def)
  qed
  show ?thesis
    unfolding reschedule_def c
    by (cases "intervalMinutes s")
      (simp_all add: js_isFinite_def Let_def setInterval_def registerInterval_def)
qed

lemma mul_5_60: "js_mul (Fin 5) (Fin 60) = Fin 300"
proof -
  have a: "fl (5 * 60) = Fin (of_int (round_even (5 * 60 / 2 powi (8 - 52))) * 2 powi (8 - 52))"
    by (rule fl_normal) simp_all
  have b: "(5 * 60 :: real) / 2 powi (8 - 52) = of_int 5277655813324800"
    by simp
  have c: "round_even (of_int n) = n" for n
    by (simp add: round_even_def)
  show ?thesis
    using a [unfolded b c] by (simp add: js_mul_def)
qed

lemma mul_300_1000: "js_mul (Fin 300) (Fin 1000) = Fin 300000"
proof -
  have a: "fl (300 * 1000) = Fin (of_int (round_even (300 * 1000 / 2 powi (18 - 52))) * 2 powi (18 - 52))"
    by (rule fl_normal) simp_all
  have b: "(300 * 1000 :: real) / 2 powi (18 - 52) = of_int 5153960755200000"
    by simp
  have c: "round_even (of_int n) = n" for n
    by (simp add: round_even_def)
  show ?thesis
    using a [unfolded b c] by (simp add: js_mul_def)
qed


lemma timers_tracked_initial: "timers_tracked (initial_plugin w)"
  by (simp add: timers_tracked_def initial_plugin_def)

lemma timers_tracked_reschedule: "timers_tracked s \<Longrightarrow> timers_tracked (reschedule s)"
  by (cases "intervalMinutes s") (simp_all add: reschedule_effect timers_tracked_def)

lemma reschedule_keeps_settings:
  "intervalMinutes (reschedule s) = intervalMinutes s \<and>
   saveData_calls (reschedule s) = saveData_calls s"
  by (simp add: reschedule_def Let_def clearInterval_def setInterval_def registerInterval_def
      split: option.splits)

section \<open>The commit message\<close>

lemma dec_nat_one: "n < 10 \<Longrightarrow> dec_nat n = [digit n]"
  by (simp add: dec_nat.simps)

lemma dec_nat_two: "10 \<le> n \<Longrightarrow> n < 100 \<Longrightarrow> dec_nat n = two_digits n"
  by (subst dec_nat.simps) (simp add: dec_nat_one two_digits_def)

lemma number_toString_unpadded: "0 \<le> i \<Longrightarrow> i < 100 \<Longrightarrow> number_toString i = unpadded (nat i)"
  by (cases "nat i < 10") (simp_all add: number_toString_def unpadded_def dec_nat_one dec_nat_two)

lemma padStart_minutes:
  assumes "0 \<le> i" and "i < 100"
  shows "padStart (number_toString i) 2 (js ''0'') = two_digits (nat i)"
proof (cases "nat i < 10")
  case True
  then have "number_toString i = [digit (nat i)]"
    using assms by (simp add: number_toString_def dec_nat_one)
  then show ?thesis
    using True by (simp add: padStart_def two_digits_def digit_def js_Nil js_Cons)
next
  case False
  then have "number_toString i = two_digits (nat i)"
    using assms by (simp add: number_toString_def dec_nat_two)
  then show ?thesis
    by (simp add: padStart_def two_digits_def)
qed

section \<open>A failing commit\<close>

lemma space_not_letter: "is_space c \<Longrightarrow> canon c = c"
  unfolding is_space_def canon_def by (auto simp: word_le_nat_alt)

lemma canon_n_not_space: "canon c = canon 110 \<Longrightarrow> \<not> is_space c"
proof
  assume a: "canon c = canon 110" and "is_space c"
  then have "c = canon 110"
    by (simp add: space_not_letter)
  then have "c = 78"
    by (simp add: canon_def)
  with \<open>is_space c\<close> show False
    by (simp add: is_space_def)
qed

lemma canon_t_not_space: "canon c = canon 116 \<Longrightarrow> \<not> is_space c"
proof
  assume a: "canon c = canon 116" and "is_space c"
  then have "c = canon 116"
    by (simp add: space_not_letter)
  then have "c = 84"
    by (simp add: canon_def)
  with \<open>is_space c\<close> show False
    by (simp add: is_space_def)
qed

lemma dropWhile_keeps:
  "mid \<noteq> [] \<Longrightarrow> \<not> P (hd mid) \<Longrightarrow> \<exists>pre'. dropWhile P (pre @ mid @ post) = pre' @ mid @ post"
proof (induction pre)
  case Nil
  then have "dropWhile P (mid @ post) = [] @ mid @ post"
    by (cases mid) simp_all
  then show ?case
    by (metis append_Nil)
next
  case (Cons a pre)
  show ?case
  proof (cases "P a")
    case True
    with Cons show ?thesis by simp
  next
    case False
    then have "dropWhile P ((a # pre) @ mid @ post) = (a # pre) @ mid @ post"
      by simp
    then show ?thesis by blast
  qed
qed

lemma trim_infix: "\<exists>a b. s = a @ trim s @ b"
proof -
  let ?d = "dropWhile is_space s"
  have "rev (trim s @ rev (takeWhile is_space (rev ?d))) = rev ?d"
    by (simp add: trim_def)
  then have "?d = trim s @ rev (takeWhile is_space (rev ?d))"
    by (simp only: rev_is_rev_conv)
  moreover have "s = takeWhile is_space s @ ?d"
    by simp
  ultimately have "s = takeWhile is_space s @ trim s @ rev (takeWhile is_space (rev ?d))"
    by simp
  then show ?thesis by blast
qed

lemma contains_ci_trim:
  assumes "pat \<noteq> []"
    and h: "\<And>c. canon c = canon (hd pat) \<Longrightarrow> \<not> is_space c"
    and l: "\<And>c. canon c = canon (last pat) \<Longrightarrow> \<not> is_space c"
  shows "contains_ci (trim s) pat \<longleftrightarrow> contains_ci s pat"
proof
  assume "contains_ci (trim s) pat"
  then obtain pre mid post where m: "trim s = pre @ mid @ post" "map canon mid = map canon pat"
    unfolding contains_ci_def by blast
  obtain a b where "s = a @ trim s @ b"
    using trim_infix by blast
  with m have "s = (a @ pre) @ mid @ (post @ b)"
    by simp
  with m(2) show "contains_ci s pat"
    unfolding contains_ci_def by blast
next
  assume "contains_ci s pat"
  then obtain pre mid post where m: "s = pre @ mid @ post" "map canon mid = map canon pat"
    unfolding contains_ci_def by blast
  from m(2) assms(1) have ne: "mid \<noteq> []"
    by auto
  have "canon (hd mid) = hd (map canon mid)" and "canon (last mid) = last (map canon mid)"
    using ne by (simp_all add: hd_map last_map)
  then have "canon (hd mid) = canon (hd pat)" and "canon (last mid) = canon (last pat)"
    using m(2) assms(1) by (simp_all add: hd_map last_map)
  then have nh: "\<not> is_space (hd mid)" and nl: "\<not> is_space (last mid)"
    using h l by blast+
  obtain pre' where d: "dropWhile is_space s = pre' @ mid @ post"
    using dropWhile_keeps [where mid = mid and P = is_space and pre = pre and post = post] ne nh m(1)
    by auto
  have "rev mid \<noteq> []" and "\<not> is_space (hd (rev mid))"
    using ne nl by (simp_all add: hd_rev)
  then obtain q where "dropWhile is_space (rev post @ rev mid @ rev pre') = q @ rev mid @ rev pre'"
    using dropWhile_keeps [where mid = "rev mid" and P = is_space and pre = "rev post" and post = "rev pre'"]
    by auto
  then have "trim s = pre' @ mid @ rev q"
    by (simp add: trim_def d)
  with m(2) show "contains_ci (trim s) pat"
    unfolding contains_ci_def by blast
qed

lemma contains_nothing_to_commit_trim:
  "contains_ci (trim s) (js ''nothing to commit'') \<longleftrightarrow> contains_ci s (js ''nothing to commit'')"
proof (rule contains_ci_trim)
  show "js ''nothing to commit'' \<noteq> []"
    by (simp add: js_Cons)
next
  fix c
  assume "canon c = canon (hd (js ''nothing to commit''))"
  then show "\<not> is_space c"
    using canon_n_not_space by (simp add: js_Cons)
next
  fix c
  assume "canon c = canon (last (js ''nothing to commit''))"
  then show "\<not> is_space c"
    using canon_t_not_space by (simp add: js_Nil js_Cons)
qed

lemma commit_fails_effects:
  assumes "\<not> isRunning s" and "getVaultPath env = Some cwd" and "cwd \<noteq> []"
    and "exec env (world s) verify_command cwd = Some (e1, o1, r1, w1)" and "\<not> truthy e1"
    and "exec env w1 stage_command cwd = Some (e2, o2, r2, w2)" and "\<not> truthy e2"
    and "exec env w2 (commit_command (buildCommitMessage (clock env w1))) cwd = Some (e3, o3, r3, w3)"
    and "truthy e3"
    and "text = trim (if r3 \<noteq> [] then r3 else if o3 \<noteq> [] then o3 else js ''[object Object]'')"
    and "commit = commit_command (buildCommitMessage (clock env w1))"
  shows "if contains_ci text (js ''nothing to commit'')
         then exec_calls (snd (commitAndPush env s)) =
                exec_calls s @ [(verify_command, cwd), (stage_command, cwd), (commit, cwd), (push_command, cwd)] \<and>
              (\<forall>e4 o4 r4 w4. exec env w3 push_command cwd = Some (e4, o4, r4, w4) \<and> \<not> truthy e4 \<longrightarrow>
                 fst (commitAndPush env s) = Fulfilled () \<and>
                 notices (snd (commitAndPush env s)) = notices s \<and>
                 console_errors (snd (commitAndPush env s)) = console_errors s)
         else fst (commitAndPush env s) = Fulfilled () \<and>
              exec_calls (snd (commitAndPush env s)) =
                exec_calls s @ [(verify_command, cwd), (stage_command, cwd), (commit, cwd)] \<and>
              notices (snd (commitAndPush env s)) =
                notices s @ [js ''only commit: Error'' @ [10] @ take 400 text] \<and>
              console_errors (snd (commitAndPush env s)) = console_errors s @ [rejection e3 o3 r3]"
proof -
  let ?s0 = "s\<lparr>isRunning := True\<rparr>"
  let ?s2 = "?s0\<lparr>exec_calls := exec_calls ?s0 @ [(verify_command, cwd), (stage_command, cwd)], world := w2\<rparr>"
  let ?s3 = "?s2\<lparr>exec_calls := exec_calls ?s2 @ [(commit, cwd)], world := w3\<rparr>"
  have tb: "try_body env ?s0 =
      await (commit_step env (buildCommitMessage (clock env w1)) cwd ?s2)
        (\<lambda>_ s3. await (run env push_command cwd s3) (\<lambda>_ s4. (Fulfilled (), s4)))"
  proof -
    have v0: "exec env (world ?s0) verify_command cwd = Some (e1, o1, r1, w1)"
      using assms(4) by simp
    show ?thesis
      using try_body_staged [OF assms(2,3) v0 assms(5,6,7)] by simp
  qed
  have cs: "commit_step env (buildCommitMessage (clock env w1)) cwd ?s2 =
      (if contains_ci text (js ''nothing to commit'') then Fulfilled () else Rejected (rejection e3 o3 r3), ?s3)"
  proof -
    have c0: "exec env (world ?s2) (commit_command (buildCommitMessage (clock env w1))) cwd =
        Some (e3, o3, r3, w3)"
      using assms(8) by simp
    show ?thesis
      unfolding assms(10,11) using commit_step_fails [OF c0 assms(9)] by simp
  qed
  show ?thesis
  proof (cases "contains_ci text (js ''nothing to commit'')")
    case False
    then have "try_body env ?s0 = (Rejected (rejection e3 o3 r3), ?s3)"
      using cs by (simp add: tb await_def)
    then show ?thesis
      using False assms(1) unfolding assms(10)
      by (simp add: commitAndPush_def catch_handler_rejection)
  next
    case True
    then have t: "try_body env ?s0 = await (run env push_command cwd ?s3) (\<lambda>_ s4. (Fulfilled (), s4))"
      using cs by (simp add: tb await_def)
    have calls: "exec_calls (snd (commitAndPush env s)) =
        exec_calls s @ [(verify_command, cwd), (stage_command, cwd), (commit, cwd), (push_command, cwd)]"
    proof -
      obtain r s4 where p: "run env push_command cwd ?s3 = (r, s4)"
        by (cases "run env push_command cwd ?s3")
      have c4: "exec_calls s4 =
          exec_calls s @ [(verify_command, cwd), (stage_command, cwd), (commit, cwd), (push_command, cwd)]"
        using run_calls [of env push_command cwd ?s3] p by simp
      show ?thesis
      proof (cases r)
        case (Rejected e)
        with p obtain x out err where "e = rejection x out err"
          using run_Rejected by blast
        with p Rejected c4 assms(1) show ?thesis
          by (simp add: commitAndPush_def t await_def catch_handler_rejection)
      qed (use p c4 assms(1) in \<open>simp_all add: commitAndPush_def t await_def\<close>)
    qed
    have ok: "fst (commitAndPush env s) = Fulfilled () \<and>
        notices (snd (commitAndPush env s)) = notices s \<and>
        console_errors (snd (commitAndPush env s)) = console_errors s"
      if "exec env w3 push_command cwd = Some (e4, o4, r4, w4)" and "\<not> truthy e4" for e4 o4 r4 w4
    proof -
      have "run env push_command cwd ?s3 =
          (Fulfilled (o4, r4), ?s3\<lparr>exec_calls := exec_calls ?s3 @ [(push_command, cwd)], world := w4\<rparr>)"
        using that by (intro run_ok) simp_all
      then show ?thesis
        using assms(1) by (simp add: commitAndPush_def t await_def)
    qed
    show ?thesis
      using True calls ok by auto
  qed
qed

section \<open>The claims\<close>

text \<open>
  C1, as stated: the routine goes on to the push if and only if the combined text of
  stderr, stdout and the error contains \<open>nothing to commit\<close>. The routine tests one
  text, the first that is not empty, stderr before stdout. With a pre-commit hook that
  writes \<open>checking notes\<close> to stderr, \<open>git commit\<close> on a clean tree fails with the
  phrase on stdout; the routine tests the text of stderr alone, starts no push and
  shows the error notice.
\<close>

theorem commit_failure_stderr_hides_stdout_counterexample:
  "contains_ci (js ''nothing to commit, working tree clean'') (js ''nothing to commit'') \<and>
   contains_ci (js ''checking notes'' @ js ''nothing to commit, working tree clean'')
     (js ''nothing to commit'') \<and>
   exec_calls (snd (commitAndPush (scripted hook_script march_7) (initial_plugin 0))) =
     [(verify_command, js ''/vault''), (stage_command, js ''/vault''),
      (commit_command (js ''auto commit at 3-7-2024 9:05''), js ''/vault'')] \<and>
   notices (snd (commitAndPush (scripted hook_script march_7) (initial_plugin 0))) =
     [js ''only commit: Error'' @ [10] @ js ''checking notes'']"
proof -
  let ?env = "scripted hook_script march_7"
  let ?s = "initial_plugin (0::nat)"
  have h1: "\<not> isRunning ?s"
    by (simp add: initial_plugin_def)
  have h2: "getVaultPath ?env = Some (js ''/vault'')"
    by (simp add: getVaultPath_def scripted_def)
  have h3: "js ''/vault'' \<noteq> []"
    by (simp add: js_Cons)
  have h4: "exec ?env (world ?s) verify_command (js ''/vault'') = Some (Null, js ''true'', [], 1)"
    by (simp add: exec_scripted hook_script_def initial_plugin_def)
  have h5: "\<not> truthy Null"
    by (simp add: truthy_def)
  have h6: "exec ?env 1 stage_command (js ''/vault'') = Some (Null, [], [], 2)"
    by (simp add: exec_scripted hook_script_def)
  have h7: "exec ?env 2 (commit_command (buildCommitMessage (clock ?env 1))) (js ''/vault'') =
      Some (exit_error 1, js ''nothing to commit, working tree clean'', js ''checking notes'', 3)"
    by (simp add: exec_scripted hook_script_def)
  have h8: "truthy (exit_error 1)"
    by (simp add: truthy_def exit_error_def)
  have t: "trim (js ''checking notes'') = js ''checking notes''"
    by (simp add: trim_def is_space_def js_Nil js_Cons)
  have k: "take 400 (js ''checking notes'') = js ''checking notes''"
    by (simp add: js_def)
  have n: "\<not> contains_ci (js ''checking notes'') (js ''nothing to commit'')"
    unfolding regex_test_i_contains [symmetric] by (simp add: canon_def js_Nil js_Cons)
  have ne: "js ''checking notes'' \<noteq> []"
    by (simp add: js_Cons)
  have m: "clock ?env w = march_7" for w
    by (simp add: scripted_def)
  have c1: "contains_ci (js ''nothing to commit, working tree clean'') (js ''nothing to commit'')"
    unfolding regex_test_i_contains [symmetric] by (simp add: js_Nil js_Cons)
  have c2: "contains_ci (js ''checking notes'' @ js ''nothing to commit, working tree clean'')
      (js ''nothing to commit'')"
    unfolding regex_test_i_contains [symmetric] by (simp add: canon_def js_Nil js_Cons)
  from commit_fails_effects [OF h1 h2 h3 h4 h5 h6 h5 h7 h8 refl refl] show ?thesis
    using c1 c2 by (simp add: t k n ne m buildCommitMessage_march_7 initial_plugin_def)
qed

text \<open>
  C1, amended. When verify and stage have succeeded and \<open>git commit\<close> fails with stderr
  or stdout not empty, the routine goes on to \<open>git push\<close> if and only if the diagnostic
  text, which is stderr if that is not empty and stdout otherwise, contains
  \<open>nothing to commit\<close> in any case of letters. If it does and the push succeeds, the
  routine ends without a notice or a log entry; if it does not, the routine stops
  before the push, shows the error notice with the first 400 characters of the trimmed
  text and logs the rejection.
\<close>

theorem commit_failure_push_iff_first_output_matches:
  assumes "\<not> isRunning s" and "getVaultPath env = Some cwd" and "cwd \<noteq> []"
    and "exec env (world s) verify_command cwd = Some (e1, o1, r1, w1)" and "\<not> truthy e1"
    and "exec env w1 stage_command cwd = Some (e2, o2, r2, w2)" and "\<not> truthy e2"
    and "exec env w2 (commit_command (buildCommitMessage (clock env w1))) cwd = Some (e3, o3, r3, w3)"
    and "truthy e3"
    and "r3 \<noteq> [] \<or> o3 \<noteq> []"
    and "text = (if r3 \<noteq> [] then r3 else o3)"
    and "commit = commit_command (buildCommitMessage (clock env w1))"
  shows "if contains_ci text (js ''nothing to commit'')
         then exec_calls (snd (commitAndPush env s)) =
                exec_calls s @ [(verify_command, cwd), (stage_command, cwd), (commit, cwd), (push_command, cwd)] \<and>
              (\<forall>e4 o4 r4 w4. exec env w3 push_command cwd = Some (e4, o4, r4, w4) \<and> \<not> truthy e4 \<longrightarrow>
                 fst (commitAndPush env s) = Fulfilled () \<and>
                 notices (snd (commitAndPush env s)) = notices s \<and>
                 console_errors (snd (commitAndPush env s)) = console_errors s)
         else fst (commitAndPush env s) = Fulfilled () \<and>
              exec_calls (snd (commitAndPush env s)) =
                exec_calls s @ [(verify_command, cwd), (stage_command, cwd), (commit, cwd)] \<and>
              notices (snd (commitAndPush env s)) =
                notices s @ [js ''only commit: Error'' @ [10] @ take 400 (trim text)] \<and>
              console_errors (snd (commitAndPush env s)) = console_errors s @ [rejection e3 o3 r3]"
proof -
  have t: "trim (if r3 \<noteq> [] then r3 else if o3 \<noteq> [] then o3 else js ''[object Object]'') = trim text"
    using assms(10,11) by auto
  show ?thesis
    using commit_fails_effects [OF assms(1-9) t [symmetric] assms(12)]
    by (simp add: contains_nothing_to_commit_trim)
qed

theorem commit_failure_push_iff_first_output_matches_witness:
  "fst (commitAndPush (scripted clean_tree_script march_7) (initial_plugin 0)) = Fulfilled () \<and>
   exec_calls (snd (commitAndPush (scripted clean_tree_script march_7) (initial_plugin 0))) =
     [(verify_command, js ''/vault''), (stage_command, js ''/vault''),
      (commit_command (js ''auto commit at 3-7-2024 9:05''), js ''/vault''),
      (push_command, js ''/vault'')] \<and>
   notices (snd (commitAndPush (scripted clean_tree_script march_7) (initial_plugin 0))) = []"
proof -
  let ?env = "scripted clean_tree_script march_7"
  let ?s = "initial_plugin (0::nat)"
  have h1: "\<not> isRunning ?s"
    by (simp add: initial_plugin_def)
  have h2: "getVaultPath ?env = Some (js ''/vault'')"
    by (simp add: getVaultPath_def scripted_def)
  have h3: "js ''/vault'' \<noteq> []"
    by (simp add: js_Cons)
  have h4: "exec ?env (world ?s) verify_command (js ''/vault'') = Some (Null, js ''true'', [], 1)"
    by (simp add: exec_scripted clean_tree_script_def initial_plugin_def)
  have h5: "\<not> truthy Null"
    by (simp add: truthy_def)
  have h6: "exec ?env 1 stage_command (js ''/vault'') = Some (Null, [], [], 2)"
    by (simp add: exec_scripted clean_tree_script_def)
  have h7: "exec ?env 2 (commit_command (buildCommitMessage (clock ?env 1))) (js ''/vault'') =
      Some (exit_error 1, js ''nothing to commit, working tree clean'', [], 3)"
    by (simp add: exec_scripted clean_tree_script_def)
  have h8: "truthy (exit_error 1)"
    by (simp add: truthy_def exit_error_def)
  have h9: "exec ?env 3 push_command (js ''/vault'') = Some (Null, [], js ''Everything up-to-date'', 4)"
    by (simp add: exec_scripted clean_tree_script_def)
  have t: "trim (js ''nothing to commit, working tree clean'') = js ''nothing to commit, working tree clean''"
    by (simp add: trim_def is_space_def js_Nil js_Cons)
  have c: "contains_ci (js ''nothing to commit, working tree clean'') (js ''nothing to commit'')"
    unfolding regex_test_i_contains [symmetric] by (simp add: js_Nil js_Cons)
  have ne: "js ''nothing to commit, working tree clean'' \<noteq> []"
    by (simp add: js_Cons)
  have m: "clock ?env w = march_7" for w
    by (simp add: scripted_def)
  have o: "[] \<noteq> [] \<or> js ''nothing to commit, working tree clean'' \<noteq> []"
    using ne by simp
  from commit_failure_push_iff_first_output_matches [OF h1 h2 h3 h4 h5 h6 h5 h7 h8 o refl refl] h9 h5
  show ?thesis
    by (simp add: c ne m buildCommitMessage_march_7 initial_plugin_def)
qed

text \<open>
  C3. A run of the commit routine that starts with the run-state flag false and
  completes, on whatever path, leaves the flag false. It completes, without an
  exception, whenever every subprocess calls back.
\<close>

theorem run_state_cleared:
  assumes "\<not> isRunning s"
  shows "(fst (commitAndPush env s) \<noteq> Pending \<longrightarrow> \<not> isRunning (snd (commitAndPush env s))) \<and>
         ((\<forall>w c d. exec env w c d \<noteq> None) \<longrightarrow> fst (commitAndPush env s) = Fulfilled ())"
proof
  show "fst (commitAndPush env s) \<noteq> Pending \<longrightarrow> \<not> isRunning (snd (commitAndPush env s))"
    using assms by (auto simp: commitAndPush_def Notice_def split: prod.splits outcome.splits)
next
  show "(\<forall>w c d. exec env w c d \<noteq> None) \<longrightarrow> fst (commitAndPush env s) = Fulfilled ()"
  proof
    assume a: "\<forall>w c d. exec env w c d \<noteq> None"
    show "fst (commitAndPush env s) = Fulfilled ()"
      using commitAndPush_not_Pending [OF a, of s] commitAndPush_not_Rejected [of env s]
      by (cases "fst (commitAndPush env s)") auto
  qed
qed

theorem run_state_cleared_witness:
  "fst (commitAndPush \<lparr>exec = (\<lambda>w c d. Some (exit_error 128, [], js ''fatal: not a git repository'', w)),
                        clock = (\<lambda>w. march_7), adapter = FileSystemAdapter (js ''/vault'')\<rparr>
         (initial_plugin ())) = Fulfilled () \<and>
   \<not> isRunning (snd (commitAndPush
         \<lparr>exec = (\<lambda>w c d. Some (exit_error 128, [], js ''fatal: not a git repository'', w)),
          clock = (\<lambda>w. march_7), adapter = FileSystemAdapter (js ''/vault'')\<rparr>
         (initial_plugin ())))"
proof -
  let ?env = "\<lparr>exec = (\<lambda>w c d. Some (exit_error 128, [], js ''fatal: not a git repository'', w)),
               clock = (\<lambda>w. march_7), adapter = FileSystemAdapter (js ''/vault'')\<rparr> :: unit env"
  have h: "\<not> isRunning (initial_plugin ())"
    by (simp add: initial_plugin_def)
  have "\<forall>w c d. exec ?env w c d \<noteq> None"
    by simp
  with run_state_cleared [OF h, of ?env] show ?thesis
    by simp
qed

text \<open>
  C4. Called while the run-state flag is true, the commit routine starts no subprocess,
  shows the one notice \<open>only commit: already running\<close>, changes nothing else (the flag
  stays true) and returns normally.
\<close>

theorem already_running_is_noop:
  assumes "isRunning s"
  shows "commitAndPush env s =
           (Fulfilled (), s\<lparr>notices := notices s @ [js ''only commit: already running'']\<rparr>)"
  using assms by (simp add: commitAndPush_def Notice_def)

theorem already_running_is_noop_witness:
  "isRunning ((initial_plugin 0)\<lparr>isRunning := True\<rparr>) \<and>
   commitAndPush (scripted clean_tree_script march_7) ((initial_plugin 0)\<lparr>isRunning := True\<rparr>) =
     (Fulfilled (),
      (initial_plugin 0)\<lparr>isRunning := True, notices := [js ''only commit: already running'']\<rparr>)"
  using already_running_is_noop [of "(initial_plugin 0)\<lparr>isRunning := True\<rparr>"
      "scripted clean_tree_script march_7"]
  by (simp add: initial_plugin_def)

text \<open>
  C5. When the verify step fails (the callback of \<open>exec\<close> gets an error: a non-zero exit
  or a failure to spawn), the verify command is the only subprocess of the run, and
  the routine shows the error notice and logs the rejection.
\<close>

theorem verify_failure_stops_routine:
  assumes "\<not> isRunning s" and "getVaultPath env = Some cwd" and "cwd \<noteq> []"
    and "exec env (world s) verify_command cwd = Some (error, out, err, w)" and "truthy error"
  shows "exec_calls (snd (commitAndPush env s)) = exec_calls s @ [(verify_command, cwd)] \<and>
         (\<exists>text. notices (snd (commitAndPush env s)) =
                   notices s @ [js ''only commit: Error'' @ [10] @ text]) \<and>
         console_errors (snd (commitAndPush env s)) = console_errors s @ [rejection error out err]"
  using verify_fails_effects [OF assms] by simp

theorem verify_failure_stops_routine_witness:
  "exec_calls (snd (commitAndPush
       (scripted [Some (exit_error 128, [], js ''fatal: not a git repository'')] march_7)
       (initial_plugin 0))) = [(verify_command, js ''/vault'')] \<and>
   console_errors (snd (commitAndPush
       (scripted [Some (exit_error 128, [], js ''fatal: not a git repository'')] march_7)
       (initial_plugin 0))) = [rejection (exit_error 128) [] (js ''fatal: not a git repository'')]"
proof -
  let ?env = "scripted [Some (exit_error 128, [], js ''fatal: not a git repository'')] march_7"
  have h1: "\<not> isRunning (initial_plugin (0::nat))"
    by (simp add: initial_plugin_def)
  have h2: "getVaultPath ?env = Some (js ''/vault'')"
    by (simp add: getVaultPath_def scripted_def)
  have h3: "js ''/vault'' \<noteq> []"
    by (simp add: js_Cons)
  have h4: "exec ?env (world (initial_plugin 0)) verify_command (js ''/vault'') =
      Some (exit_error 128, [], js ''fatal: not a git repository'', 1)"
    by (simp add: exec_scripted initial_plugin_def)
  have h5: "truthy (exit_error 128)"
    by (simp add: truthy_def exit_error_def)
  from verify_failure_stops_routine [OF h1 h2 h3 h4 h5] show ?thesis
    by (simp add: initial_plugin_def)
qed

text \<open>
  C8. When the vault adapter is not a \<open>FileSystemAdapter\<close>, so that \<open>getVaultPath\<close>
  returns null, a run that passes the busy guard shows the notice
  \<open>Available on desktop only\<close>, starts no subprocess, shows no error notice, logs
  nothing and returns normally.
\<close>

theorem no_vault_path_aborts:
  assumes "\<not> isRunning s" and "getVaultPath env = None"
  shows "fst (commitAndPush env s) = Fulfilled () \<and>
         exec_calls (snd (commitAndPush env s)) = exec_calls s \<and>
         notices (snd (commitAndPush env s)) = notices s @ [js ''Available on desktop only''] \<and>
         console_errors (snd (commitAndPush env s)) = console_errors s \<and>
         \<not> isRunning (snd (commitAndPush env s))"
  using assms by (simp add: commitAndPush_def try_body_def Notice_def)

theorem no_vault_path_aborts_witness:
  "exec_calls (snd (commitAndPush
      \<lparr>exec = (\<lambda>w c d. None), clock = (\<lambda>w. march_7), adapter = OtherAdapter\<rparr>
      (initial_plugin ()))) = [] \<and>
   notices (snd (commitAndPush
      \<lparr>exec = (\<lambda>w c d. None), clock = (\<lambda>w. march_7), adapter = OtherAdapter\<rparr>
      (initial_plugin ()))) = [js ''Available on desktop only'']"
proof -
  let ?env = "\<lparr>exec = (\<lambda>w c d. None), clock = (\<lambda>w. march_7), adapter = OtherAdapter\<rparr> :: unit env"
  have h1: "\<not> isRunning (initial_plugin ())"
    by (simp add: initial_plugin_def)
  have h2: "getVaultPath ?env = None"
    by (simp add: getVaultPath_def)
  from no_vault_path_aborts [OF h1 h2] show ?thesis
    by (simp add: initial_plugin_def)
qed

text \<open>
  C7. For every date (month 0 to 11 as \<open>getMonth\<close> gives it, day 1 to 31, hour 0 to 23,
  minute 0 to 59) the commit message is \<open>auto commit at M-D-YYYY h:mm\<close>: month, day
  and hour unpadded, the year in decimal, the minute padded with a zero to two digits.
  For March 7, 2024, 9:05 it is \<open>auto commit at 3-7-2024 9:05\<close>.
\<close>

theorem commit_message_format:
  "(\<forall>d. 0 \<le> getMonth d \<and> getMonth d \<le> 11 \<and> 1 \<le> getDate d \<and> getDate d \<le> 31 \<and>
        0 \<le> getHours d \<and> getHours d \<le> 23 \<and> 0 \<le> getMinutes d \<and> getMinutes d \<le> 59 \<longrightarrow>
      buildCommitMessage d =
        js ''auto commit at '' @ unpadded (nat (getMonth d + 1)) @ js ''-'' @
        unpadded (nat (getDate d)) @ js ''-'' @ number_toString (getFullYear d) @ js '' '' @
        unpadded (nat (getHours d)) @ js '':'' @ two_digits (nat (getMinutes d))) \<and>
   buildCommitMessage
     \<lparr>getMonth = 2, getDate = 7, getFullYear = 2024, getHours = 9, getMinutes = 5\<rparr> =
     js ''auto commit at 3-7-2024 9:05''"
proof (intro conjI allI impI)
  fix d :: date
  assume r: "0 \<le> getMonth d \<and> getMonth d \<le> 11 \<and> 1 \<le> getDate d \<and> getDate d \<le> 31 \<and>
        0 \<le> getHours d \<and> getHours d \<le> 23 \<and> 0 \<le> getMinutes d \<and> getMinutes d \<le> 59"
  then have "number_toString (getMonth d + 1) = unpadded (nat (getMonth d + 1))"
    and "number_toString (getDate d) = unpadded (nat (getDate d))"
    and "number_toString (getHours d) = unpadded (nat (getHours d))"
    by (simp_all add: number_toString_unpadded)
  moreover have "padStart (number_toString (getMinutes d)) 2 (js ''0'') = two_digits (nat (getMinutes d))"
    using r by (simp add: padStart_minutes)
  ultimately show "buildCommitMessage d =
        js ''auto commit at '' @ unpadded (nat (getMonth d + 1)) @ js ''-'' @
        unpadded (nat (getDate d)) @ js ''-'' @ number_toString (getFullYear d) @ js '' '' @
        unpadded (nat (getHours d)) @ js '':'' @ two_digits (nat (getMinutes d))"
    by (simp add: buildCommitMessage_def Let_def)
next
  show "buildCommitMessage
     \<lparr>getMonth = 2, getDate = 7, getFullYear = 2024, getHours = 9, getMinutes = 5\<rparr> =
     js ''auto commit at 3-7-2024 9:05''"
    using buildCommitMessage_march_7 by (simp add: march_7_def)
qed

theorem commit_message_format_witness:
  "buildCommitMessage
     \<lparr>getMonth = 11, getDate = 31, getFullYear = 2025, getHours = 23, getMinutes = 0\<rparr> =
   js ''auto commit at 12-31-2025 23:00''"
proof -
  let ?d = "\<lparr>getMonth = 11, getDate = 31, getFullYear = 2025, getHours = 23, getMinutes = 0\<rparr>"
  have "0 \<le> getMonth ?d \<and> getMonth ?d \<le> 11 \<and> 1 \<le> getDate ?d \<and> getDate ?d \<le> 31 \<and>
        0 \<le> getHours ?d \<and> getHours ?d \<le> 23 \<and> 0 \<le> getMinutes ?d \<and> getMinutes ?d \<le> 59"
    by simp
  with commit_message_format have "buildCommitMessage ?d =
        js ''auto commit at '' @ unpadded (nat (getMonth ?d + 1)) @ js ''-'' @
        unpadded (nat (getDate ?d)) @ js ''-'' @ number_toString (getFullYear ?d) @ js '' '' @
        unpadded (nat (getHours ?d)) @ js '':'' @ two_digits (nat (getMinutes ?d))"
    by blast
  then show ?thesis
    by (simp add: unpadded_def two_digits_def number_toString_def dec_nat.simps digit_def
        js_Nil js_Cons)
qed




text \<open>
  C2, as stated: the period of the timer is \<open>max(10000, round(v * 60000))\<close>. The
  program multiplies by 60 and then by 1000, rounding each product to binary64, and
  for the interval 0.16675833333333331 that gives 10005.5 and a period of 10006
  milliseconds, where \<open>v * 60000\<close> is 10005.499999999998 in binary64 and a little less
  than 10005.5 exactly, so that the stated period is 10005.
\<close>

theorem reschedule_period_counterexample:
  "map snd (timers (reschedule ((initial_plugin ())\<lparr>intervalMinutes := Fin odd_interval\<rparr>))) = [Fin 10006] \<and>
   Math_max (Fin 10000) (Math_round (js_mul (Fin odd_interval) (Fin 60000))) = Fin 10005 \<and>
   max 10000 \<lfloor>odd_interval * 60000 + 1 / 2\<rfloor> = 10005 \<and>
   map snd (timers (reschedule ((initial_plugin ())\<lparr>intervalMinutes := Fin odd_interval\<rparr>))) \<noteq>
     [Math_max (Fin 10000) (Math_round (js_mul (Fin odd_interval) (Fin 60000)))]"
proof -
  have "timers_tracked ((initial_plugin ())\<lparr>intervalMinutes := Fin odd_interval\<rparr>)"
    by (simp add: timers_tracked_def initial_plugin_def)
  moreover have "0 < odd_interval"
    by (simp add: odd_interval_def)
  ultimately have "map snd (timers (reschedule ((initial_plugin ())\<lparr>intervalMinutes := Fin odd_interval\<rparr>))) = [Fin 10006]"
    by (simp add: reschedule_effect mul_60 mul_1000 Math_round_def Math_max_def)
  moreover have "Math_max (Fin 10000) (Math_round (js_mul (Fin odd_interval) (Fin 60000))) = Fin 10005"
    by (simp add: mul_60000 Math_round_def Math_max_def)
  moreover have "max 10000 \<lfloor>odd_interval * 60000 + 1 / 2\<rfloor> = 10005"
    by (simp add: odd_interval_def)
  ultimately show ?thesis
    by simp
qed

text \<open>
  C2, amended. After \<open>reschedule\<close> on a state whose only timer, if any, is the one the
  plugin holds: for an interval that is not finite or is at most 0 no timer is
  installed and the plugin holds no handle; for a finite interval \<open>v > 0\<close> exactly one
  timer is installed, under the handle the plugin holds, and its period in milliseconds
  is \<open>max(10000, round((v * 60) * 1000))\<close> with both products in binary64.
\<close>

theorem reschedule_installs_timer:
  assumes "timers_tracked s"
  shows "case intervalMinutes s of
           Fin v \<Rightarrow>
             if 0 < v then
               autoIntervalHandle (reschedule s) = Some (next_handle s) \<and>
               timers (reschedule s) =
                 [(next_handle s,
                   Math_max (Fin 10000) (Math_round (js_mul (js_mul (Fin v) (Fin 60)) (Fin 1000))))]
             else autoIntervalHandle (reschedule s) = None \<and> timers (reschedule s) = []
         | _ \<Rightarrow> autoIntervalHandle (reschedule s) = None \<and> timers (reschedule s) = []"
  by (cases "intervalMinutes s") (simp_all add: reschedule_effect [OF assms])

theorem reschedule_installs_timer_witness:
  "timers_tracked (reschedule (initial_plugin ())) \<and>
   timers (reschedule (reschedule (initial_plugin ()))) = [(2, Fin 300000)] \<and>
   timers (reschedule ((reschedule (initial_plugin ()))\<lparr>intervalMinutes := Fin 0\<rparr>)) = [] \<and>
   timers (reschedule ((reschedule (initial_plugin ()))\<lparr>intervalMinutes := NaN\<rparr>)) = []"
proof -
  let ?s = "reschedule (initial_plugin ())"
  have s: "?s = (initial_plugin ())\<lparr>autoIntervalHandle := Some 1, timers := [(1, Fin 300000)],
      next_handle := 2, registered := [1]\<rparr>"
    by (simp add: reschedule_effect timers_tracked_initial)
      (simp add: initial_plugin_def mul_5_60 mul_300_1000 Math_round_def Math_max_def)
  have h: "timers_tracked ?s"
    by (rule timers_tracked_reschedule) (rule timers_tracked_initial)
  have h0: "timers_tracked (?s\<lparr>intervalMinutes := Fin 0\<rparr>)"
    using h by (simp add: timers_tracked_def)
  have h1: "timers_tracked (?s\<lparr>intervalMinutes := NaN\<rparr>)"
    using h by (simp add: timers_tracked_def)
  have "timers (reschedule ?s) = [(2, Fin 300000)]"
    using reschedule_installs_timer [OF h] unfolding s
    by (simp add: initial_plugin_def mul_5_60 mul_300_1000 Math_round_def Math_max_def)
  moreover have "timers (reschedule (?s\<lparr>intervalMinutes := Fin 0\<rparr>)) = []"
    using reschedule_installs_timer [OF h0] by simp
  moreover have "timers (reschedule (?s\<lparr>intervalMinutes := NaN\<rparr>)) = []"
    using reschedule_installs_timer [OF h1] by simp
  ultimately show ?thesis
    using h by simp
qed

text \<open>
  C6, at a failing input. The shell cannot be spawned at the verify step (the vault
  directory is gone): the callback of \<open>exec\<close> gets an error with the message
  \<open>spawn /bin/sh ENOENT\<close> and empty stdout and stderr. The notice shown is
  \<open>only commit: Error\<close>, a line feed and \<open>[object Object]\<close>: neither the message of the
  error nor its string form \<open>Error: spawn /bin/sh ENOENT\<close>.
\<close>

theorem failure_notice_drops_error_message:
  "notices (snd (commitAndPush (scripted [Some (spawn_error, [], [])] march_7) (initial_plugin 0))) =
     [js ''only commit: Error'' @ [10] @ js ''[object Object]''] \<and>
   get_prop spawn_error ''message'' = Str (js ''spawn /bin/sh ENOENT'') \<and>
   js_String spawn_error = js ''Error: spawn /bin/sh ENOENT''"
proof -
  let ?env = "scripted [Some (spawn_error, [], [])] march_7"
  have h1: "\<not> isRunning (initial_plugin (0::nat))"
    by (simp add: initial_plugin_def)
  have h2: "getVaultPath ?env = Some (js ''/vault'')"
    by (simp add: getVaultPath_def scripted_def)
  have h3: "js ''/vault'' \<noteq> []"
    by (simp add: js_Cons)
  have h4: "exec ?env (world (initial_plugin 0)) verify_command (js ''/vault'') =
      Some (spawn_error, [], [], 1)"
    by (simp add: exec_scripted initial_plugin_def)
  have h5: "truthy spawn_error"
    by (simp add: truthy_def spawn_error_def)
  have "notices (snd (commitAndPush ?env (initial_plugin 0))) =
      [js ''only commit: Error'' @ [10] @ js ''[object Object]'']"
    using verify_fails_effects [OF h1 h2 h3 h4 h5]
    by (simp add: trim_object_string take_object_string initial_plugin_def)
  moreover have "get_prop spawn_error ''message'' = Str (js ''spawn /bin/sh ENOENT'')"
    by (simp add: get_prop_def spawn_error_def)
  moreover have "js_String spawn_error = js ''Error: spawn /bin/sh ENOENT''"
    by (simp add: js_String_def spawn_error_def js_Nil js_Cons)
  ultimately show ?thesis
    by simp
qed



end
